theory Spec2Isabelle
  imports Main "HOL-Library.Word"
begin

section \<open>The room API of api.go\<close>

text \<open>
  The program keeps voting rooms in a Go map from room ID to a pointer to a
  \<open>Room\<close> struct. The embedding keeps the map as a HOL map from the ID to the
  struct's value: every pointer in the map is reached through exactly one key (only
  \<open>New\<close> stores a pointer, and it stores a pointer to a struct it has just
  allocated), so writing through the pointer is an update of the entry under that key.
  The per-room mutex is not part of the state: every operation is modelled as one atomic
  step.
\<close>

subsection \<open>Data\<close>

type_synonym Category = string
type_synonym Place = string
type_synonym int32 = "32 word"

text \<open>
  The package's three error values, and any other value of Go's \<open>error\<close> interface
  (the place lookup returns one) with its message.
\<close>

datatype error =
    ErrorRoomNotFound
  | ErrorRoomEnded
  | ErrorUnauthorized
  | ErrorOther string

text \<open>
  The struct \<open>PlaceOptions\<close> is declared outside the two source files. The program
  only ever builds its zero value, the literal \<open>PlaceOptions{}\<close> in \<open>New\<close>, and
  passes it unread to the place lookup; the single constructor stands for that value.
\<close>

datatype PlaceOptions = PlaceOptions

text \<open>
  A Go map value is either \<open>nil\<close> (\<open>None\<close>) or a reference to a table (\<open>Some m\<close>).
  Reading and ranging over a nil map behave as on an empty table; assigning to an entry
  of a nil map panics.
\<close>

record Room =
  ID :: string
  HostID :: string
  Voters :: "string list"
  Choices :: "string list"
  Votes :: "(string \<rightharpoonup> int32) option"
  Winner :: string
  PlaceOptions :: PlaceOptions

text \<open>
  The interface \<open>PlaceAPI\<close> is declared outside the two source files; the code calls
  its two methods, \<open>Categories()\<close> and \<open>Get(options, category)\<close>, the second
  returning a place and an error. The record holds what the two methods answer.
\<close>

record PlaceAPI =
  Categories :: "Category list"
  PlaceGet :: "PlaceOptions \<Rightarrow> Category \<Rightarrow> Place \<times> error option"

record API =
  Rooms :: "string \<rightharpoonup> Room"
  PlaceAPI :: PlaceAPI

text \<open>
  What a call of \<open>Vote\<close> or \<open>End\<close> does: it returns \<open>nil\<close> or an error, or it
  panics at run time.
\<close>

datatype outcome = Returned "error option" | Panicked

definition NewAPI :: "PlaceAPI \<Rightarrow> API" where
  "NewAPI placeAPI = \<lparr>Rooms = Map.empty, PlaceAPI = placeAPI\<rparr>"

subsection \<open>Get\<close>

text \<open>
  \<open>Get\<close> looks the pointer up and clears \<open>HostID\<close> and \<open>Votes\<close> through it, so the
  entry of the map is cleared as well as the value that is returned.
\<close>

definition Get :: "API \<Rightarrow> string \<Rightarrow> (error + Room) \<times> API" where
  "Get api rid =
     (case Rooms api rid of
        None \<Rightarrow> (Inl ErrorRoomNotFound, api)
      | Some room \<Rightarrow>
          (let room' = room\<lparr>HostID := '''', Votes := None\<rparr>
           in (Inr room', api\<lparr>Rooms := (Rooms api)(rid \<mapsto> room')\<rparr>)))"

subsection \<open>New\<close>

text \<open>
  The loop of \<open>New\<close> over the categories: each one is appended to the choices and gets
  the count 0. The two identifiers that \<open>generateID(11)\<close> returns are arguments
  (\<open>rid\<close> for the room, \<open>hid\<close> for the host); \<open>address\<close> is only logged.
\<close>

fun populate ::
  "Category list \<Rightarrow> string list \<Rightarrow> (string \<rightharpoonup> int32) \<Rightarrow> string list \<times> (string \<rightharpoonup> int32)" where
  "populate [] choices votes = (choices, votes)"
| "populate (v # cats) choices votes = populate cats (choices @ [v]) (votes(v \<mapsto> 0))"

definition New :: "API \<Rightarrow> string \<Rightarrow> string \<Rightarrow> string \<Rightarrow> (error + Room) \<times> API" where
  "New api address rid hid =
     (let filled = populate (Categories (PlaceAPI api)) [] Map.empty;
          room = \<lparr>ID = rid, HostID = hid, Voters = [], Choices = fst filled,
                  Votes = Some (snd filled), Winner = '''', PlaceOptions = PlaceOptions.PlaceOptions\<rparr>
      in (Inr room, api\<lparr>Rooms := (Rooms api)(rid \<mapsto> room)\<rparr>))"

subsection \<open>Vote\<close>

text \<open>
  \<open>room.Votes[vote]++\<close> reads the entry (0 when the key is absent), adds 1 in 32-bit
  arithmetic and assigns the entry, which panics on a nil map. The voter has been
  appended before that statement runs.
\<close>

definition Vote :: "API \<Rightarrow> string \<Rightarrow> string \<Rightarrow> string \<Rightarrow> outcome \<times> API" where
  "Vote api rid name vote =
     (case Rooms api rid of
        None \<Rightarrow> (Returned (Some ErrorRoomNotFound), api)
      | Some room \<Rightarrow>
          if Winner room \<noteq> '''' then (Returned (Some ErrorRoomEnded), api)
          else
            (let room1 = room\<lparr>Voters := Voters room @ [name]\<rparr>
             in case Votes room1 of
                  None \<Rightarrow> (Panicked, api\<lparr>Rooms := (Rooms api)(rid \<mapsto> room1)\<rparr>)
                | Some m \<Rightarrow>
                    (let n = (case m vote of None \<Rightarrow> 0 | Some c \<Rightarrow> c) + 1;
                         room2 = room1\<lparr>Votes := Some (m(vote \<mapsto> n))\<rparr>
                     in (Returned None, api\<lparr>Rooms := (Rooms api)(rid \<mapsto> room2)\<rparr>))))"

subsection \<open>End\<close>

text \<open>
  Go leaves the order in which \<open>range\<close> visits a map unspecified. The order of one
  execution of the loop is the argument \<open>ord\<close>: the keys in the order they are
  visited. It is an iteration order of the map when it lists every key once.
\<close>

fun range_Votes :: "(string \<rightharpoonup> int32) option \<Rightarrow> string list \<Rightarrow> (string \<times> int32) list" where
  "range_Votes None ord = []"
| "range_Votes (Some m) ord =
     concat (map (\<lambda>k. case m k of None \<Rightarrow> [] | Some v \<Rightarrow> [(k, v)]) ord)"

definition iteration_order :: "(string \<rightharpoonup> int32) option \<Rightarrow> string list \<Rightarrow> bool" where
  "iteration_order votes ord =
     (case votes of None \<Rightarrow> True | Some m \<Rightarrow> distinct ord \<and> set ord = dom m)"

text \<open>
  The loop that determines the winning category: \<open>max\<close> and \<open>winner\<close> are the two
  local variables, compared as signed 32-bit integers.
\<close>

fun tally :: "(string \<times> int32) list \<Rightarrow> int32 \<Rightarrow> Category \<Rightarrow> int32 \<times> Category" where
  "tally [] mx winner = (mx, winner)"
| "tally ((k, v) # kvs) mx winner =
     (if sint mx < sint v then tally kvs v k else tally kvs mx winner)"

definition winning_category :: "(string \<rightharpoonup> int32) option \<Rightarrow> string list \<Rightarrow> Category" where
  "winning_category votes ord = snd (tally (range_Votes votes ord) 0 '''')"

text \<open>
  \<open>End\<close> returns, besides its result and the new state, the calls of the place lookup
  it has made, each with its two arguments. The error of the lookup is dropped, as the
  blank identifier of the source drops it.
\<close>

definition End ::
  "API \<Rightarrow> string \<Rightarrow> string \<Rightarrow> string list \<Rightarrow> outcome \<times> API \<times> (PlaceOptions \<times> Category) list" where
  "End api rid hostid ord =
     (case Rooms api rid of
        None \<Rightarrow> (Returned (Some ErrorRoomNotFound), api, [])
      | Some room \<Rightarrow>
          if HostID room \<noteq> hostid then (Returned (Some ErrorUnauthorized), api, [])
          else
            (let winner = winning_category (Votes room) ord;
                 place = fst (PlaceGet (PlaceAPI api) (PlaceOptions room) winner);
                 room' = room\<lparr>Winner := place\<rparr>
             in (Returned None, api\<lparr>Rooms := (Rooms api)(rid \<mapsto> room')\<rparr>,
                 [(PlaceOptions room, winner)])))"

subsection \<open>Sequences of calls\<close>

datatype op =
    OpGet string
  | OpNew string string string
  | OpVote string string string
  | OpEnd string string "string list"

fun step :: "API \<Rightarrow> op \<Rightarrow> outcome \<times> API" where
  "step api (OpGet rid) =
     (case fst (Get api rid) of
        Inl e \<Rightarrow> (Returned (Some e), snd (Get api rid))
      | Inr room \<Rightarrow> (Returned None, snd (Get api rid)))"
| "step api (OpNew address rid hid) = (Returned None, snd (New api address rid hid))"
| "step api (OpVote rid name vote) = Vote api rid name vote"
| "step api (OpEnd rid hostid ord) =
     (fst (End api rid hostid ord), fst (snd (End api rid hostid ord)))"

fun run :: "API \<Rightarrow> op list \<Rightarrow> API" where
  "run api [] = api"
| "run api (c # cs) = run (snd (step api c)) cs"


text \<open>
  A call \<open>New\<close> whose generated room ID is \<open>rid\<close> binds the key \<open>rid\<close> to a new
  struct; the room that was stored under the key is no longer reachable.
\<close>

fun rebinds :: "string \<Rightarrow> op \<Rightarrow> bool" where
  "rebinds rid (OpNew address rid' hid) = (rid' = rid)"
| "rebinds rid c = False"



text \<open>
  A call is a successful \<open>End\<close> of the room \<open>rid\<close> in the state \<open>api\<close>; a
  sequence of calls run from \<open>api\<close> holds one.
\<close>

fun End_succeeds :: "API \<Rightarrow> string \<Rightarrow> op \<Rightarrow> bool" where
  "End_succeeds api rid (OpEnd rid' hostid ord) =
     (rid' = rid \<and> fst (End api rid' hostid ord) = Returned None)"
| "End_succeeds api rid c = False"

fun ended_in :: "API \<Rightarrow> string \<Rightarrow> op list \<Rightarrow> bool" where
  "ended_in api rid [] = False"
| "ended_in api rid (c # cs) = (End_succeeds api rid c \<or> ended_in (snd (step api c)) rid cs)"

text \<open>
  The place that a call hands to the room \<open>rid\<close> as its winner: an \<open>End\<close> of the room
  that passes the authorization check makes one place lookup, and the place of that
  lookup is what it stores; no other call makes a lookup. \<open>last_End_place\<close> is the place
  of the most recent such \<open>End\<close> in a sequence of calls run from \<open>api\<close>.
\<close>

fun End_place :: "API \<Rightarrow> string \<Rightarrow> op \<Rightarrow> Place option" where
  "End_place api rid (OpEnd rid' hostid ord) =
     (if rid' = rid then
        (case snd (snd (End api rid' hostid ord)) of
           [] \<Rightarrow> None
         | call # calls \<Rightarrow> Some (fst (PlaceGet (PlaceAPI api) (fst call) (snd call))))
      else None)"
| "End_place api rid c = None"

fun last_End_place :: "API \<Rightarrow> string \<Rightarrow> op list \<Rightarrow> Place option" where
  "last_End_place api rid [] = None"
| "last_End_place api rid (c # cs) =
     (case last_End_place (snd (step api c)) rid cs of
        None \<Rightarrow> End_place api rid c
      | Some place \<Rightarrow> Some place)"

text \<open>A room is open while its \<open>Winner\<close> is the empty string (the test of \<open>Vote\<close>).\<close>

definition room_open :: "API \<Rightarrow> string \<Rightarrow> bool" where
  "room_open api rid = (case Rooms api rid of None \<Rightarrow> False | Some room \<Rightarrow> Winner room = '''')"

text \<open>The stored room as \<open>Get\<close> leaves it: no host secret, the nil map of counts.\<close>

definition cleared :: "API \<Rightarrow> string \<Rightarrow> bool" where
  "cleared api rid =
     (case Rooms api rid of
        None \<Rightarrow> False
      | Some room \<Rightarrow> HostID room = '''' \<and> Votes room = None)"

subsection \<open>Example states\<close>

text \<open>
  Three place services over the categories sushi and pizza: one answers the category
  itself, one fails every lookup with the empty place, one fails every lookup and still
  hands back a place. A room is created with each.
\<close>

definition echoAPI :: PlaceAPI where
  "echoAPI = \<lparr>Categories = [''sushi'', ''pizza''], PlaceGet = (\<lambda>opts c. (c, None))\<rparr>"

definition failingAPI :: PlaceAPI where
  "failingAPI = \<lparr>Categories = [''sushi'', ''pizza''],
     PlaceGet = (\<lambda>opts c. ('''', Some (ErrorOther ''timeout'')))\<rparr>"

definition staleAPI :: PlaceAPI where
  "staleAPI = \<lparr>Categories = [''sushi'', ''pizza''],
     PlaceGet = (\<lambda>opts c. (''diner'', Some (ErrorOther ''timeout'')))\<rparr>"

definition fresh_room :: "string \<Rightarrow> string \<Rightarrow> Room" where
  "fresh_room rid hid =
     \<lparr>ID = rid, HostID = hid, Voters = [], Choices = [''sushi'', ''pizza''],
      Votes = Some [''sushi'' \<mapsto> 0, ''pizza'' \<mapsto> 0], Winner = '''',
      PlaceOptions = PlaceOptions.PlaceOptions\<rparr>"

definition lunch :: API where
  "lunch = snd (New (NewAPI echoAPI) ''downtown'' ''room1'' ''host1'')"

definition dinner :: API where
  "dinner = snd (New (NewAPI failingAPI) ''uptown'' ''room2'' ''host2'')"

definition supper :: API where
  "supper = snd (New (NewAPI staleAPI) ''midtown'' ''room3'' ''host3'')"

text \<open>The first room after one vote for each of its two choices.\<close>

definition tied :: API where
  "tied = run lunch [OpVote ''room1'' ''ann'' ''sushi'', OpVote ''room1'' ''bob'' ''pizza'']"

section \<open>Properties\<close>

subsection \<open>The example states\<close>

lemma lunch_eq:
  "lunch = \<lparr>Rooms = [''room1'' \<mapsto> fresh_room ''room1'' ''host1''], PlaceAPI = echoAPI\<rparr>"
  by (simp add: lunch_def New_def NewAPI_def echoAPI_def fresh_room_def Let_def)

lemma dinner_eq:
  "dinner = \<lparr>Rooms = [''room2'' \<mapsto> fresh_room ''room2'' ''host2''], PlaceAPI = failingAPI\<rparr>"
  by (simp add: dinner_def New_def NewAPI_def failingAPI_def fresh_room_def Let_def)

lemma supper_eq:
  "supper = \<lparr>Rooms = [''room3'' \<mapsto> fresh_room ''room3'' ''host3''], PlaceAPI = staleAPI\<rparr>"
  by (simp add: supper_def New_def NewAPI_def staleAPI_def fresh_room_def Let_def)

subsection \<open>Single calls\<close>

lemma PlaceOptions_unique: "(x :: PlaceOptions) = PlaceOptions.PlaceOptions"
  by (cases x) simp

lemma Get_found:
  "Rooms api rid = Some room \<Longrightarrow>
   Get api rid = (Inr (room\<lparr>HostID := '''', Votes := None\<rparr>),
                  api\<lparr>Rooms := (Rooms api)(rid \<mapsto> room\<lparr>HostID := '''', Votes := None\<rparr>)\<rparr>)"
  by (simp add: Get_def Let_def)

lemma Get_cleared: "fst (Get api rid) = Inr view \<Longrightarrow> cleared (snd (Get api rid)) rid"
  by (auto simp: cleared_def Get_def Let_def split: option.splits)

lemma End_authorized:
  "Rooms api rid = Some room \<Longrightarrow> HostID room = hostid \<Longrightarrow>
   End api rid hostid ord =
     (Returned None,
      api\<lparr>Rooms := (Rooms api)(rid \<mapsto>
        room\<lparr>Winner := fst (PlaceGet (PlaceAPI api) (PlaceOptions room)
                                (winning_category (Votes room) ord))\<rparr>)\<rparr>,
      [(PlaceOptions room, winning_category (Votes room) ord)])"
  by (simp add: End_def Let_def)

lemma End_Returned_None:
  "fst (End api rid hostid ord) = Returned None \<longleftrightarrow>
   (\<exists>room. Rooms api rid = Some room \<and> HostID room = hostid)"
  by (auto simp: End_def Let_def split: option.splits)

lemma Vote_closed:
  "Rooms api rid = Some room \<Longrightarrow> Winner room \<noteq> '''' \<Longrightarrow>
   Vote api rid name vote = (Returned (Some ErrorRoomEnded), api)"
  by (simp add: Vote_def)

subsection \<open>Sequences of calls\<close>

lemma step_PlaceAPI: "PlaceAPI (snd (step api c)) = PlaceAPI api"
  by (cases c) (simp_all add: Get_def New_def Vote_def End_def Let_def split: option.splits)

lemma run_PlaceAPI: "PlaceAPI (run api cs) = PlaceAPI api"
  by (induction cs arbitrary: api) (simp_all add: step_PlaceAPI)

lemma step_cleared: "cleared api rid \<Longrightarrow> \<not> rebinds rid c \<Longrightarrow> cleared (snd (step api c)) rid"
  by (cases c)
    (auto simp: cleared_def Get_def New_def Vote_def End_def Let_def split: option.splits)

lemma run_cleared:
  "cleared api rid \<Longrightarrow> \<forall>c\<in>set cs. \<not> rebinds rid c \<Longrightarrow> cleared (run api cs) rid"
  by (induction cs arbitrary: api) (simp_all add: step_cleared)

lemma step_Winner:
  "Rooms api rid = Some room \<Longrightarrow> \<not> rebinds rid c \<Longrightarrow> \<not> End_succeeds api rid c \<Longrightarrow>
   \<exists>room'. Rooms (snd (step api c)) rid = Some room' \<and> Winner room' = Winner room"
  by (cases c)
    (auto simp: Get_def New_def Vote_def End_def Let_def split: option.splits)

lemma run_Winner:
  "Rooms api rid = Some room \<Longrightarrow> \<forall>c\<in>set cs. \<not> rebinds rid c \<Longrightarrow> \<not> ended_in api rid cs \<Longrightarrow>
   \<exists>room'. Rooms (run api cs) rid = Some room' \<and> Winner room' = Winner room"
proof (induction cs arbitrary: api room)
  case Nil
  then show ?case by simp
next
  case (Cons c cs)
  from Cons.prems obtain room1 where
    r1: "Rooms (snd (step api c)) rid = Some room1" and w1: "Winner room1 = Winner room"
    using step_Winner [of api rid room c] by auto
  from Cons.prems have "\<forall>c\<in>set cs. \<not> rebinds rid c" and "\<not> ended_in (snd (step api c)) rid cs"
    by simp_all
  with Cons.IH [OF r1] w1 show ?case by simp
qed

lemma Vote_open:
  "Rooms api rid = Some room \<Longrightarrow> Winner room = '''' \<Longrightarrow>
   fst (Vote api rid name vote) = (case Votes room of None \<Rightarrow> Panicked | Some m \<Rightarrow> Returned None) \<and>
   map_option Voters (Rooms (snd (Vote api rid name vote)) rid) = Some (Voters room @ [name])"
  by (simp add: Vote_def Let_def split: option.splits)

lemma End_place_None: "End_place api rid c = None \<longleftrightarrow> \<not> End_succeeds api rid c"
  by (cases c) (auto simp: End_def Let_def split: option.splits)

lemma last_End_place_None: "\<not> ended_in api rid cs \<Longrightarrow> last_End_place api rid cs = None"
  by (induction cs arbitrary: api) (simp_all add: End_place_None)

lemma step_End_place:
  "Rooms api rid = Some room \<Longrightarrow> \<not> rebinds rid c \<Longrightarrow>
   \<exists>room'. Rooms (snd (step api c)) rid = Some room' \<and>
     Winner room' = (case End_place api rid c of None \<Rightarrow> Winner room | Some place \<Rightarrow> place)"
  by (cases c)
    (auto simp: Get_def New_def Vote_def End_def Let_def split: option.splits)

lemma run_last_End_place:
  "Rooms api rid = Some room \<Longrightarrow> \<forall>c\<in>set cs. \<not> rebinds rid c \<Longrightarrow>
   \<exists>room'. Rooms (run api cs) rid = Some room' \<and>
     Winner room' = (case last_End_place api rid cs of None \<Rightarrow> Winner room | Some place \<Rightarrow> place)"
proof (induction cs arbitrary: api room)
  case Nil
  then show ?case by simp
next
  case (Cons c cs)
  from Cons.prems obtain room1 where
    r1: "Rooms (snd (step api c)) rid = Some room1"
    and w1: "Winner room1 = (case End_place api rid c of None \<Rightarrow> Winner room | Some place \<Rightarrow> place)"
    using step_End_place [of api rid room c] by auto
  from Cons.prems have "\<forall>c\<in>set cs. \<not> rebinds rid c"
    by simp
  from Cons.IH [OF r1 this] obtain room2 where
    "Rooms (run (snd (step api c)) cs) rid = Some room2"
    and "Winner room2 =
      (case last_End_place (snd (step api c)) rid cs of None \<Rightarrow> Winner room1 | Some place \<Rightarrow> place)"
    by blast
  with w1 show ?case
    by (simp split: option.splits)
qed

lemma New_room:
  "Rooms (snd (New api address rid hid)) rid =
     Some \<lparr>ID = rid, HostID = hid, Voters = [],
           Choices = fst (populate (Categories (PlaceAPI api)) [] Map.empty),
           Votes = Some (snd (populate (Categories (PlaceAPI api)) [] Map.empty)),
           Winner = [], PlaceOptions = PlaceOptions.PlaceOptions\<rparr>"
  by (simp add: New_def Let_def)

lemma New_PlaceAPI: "PlaceAPI (snd (New api address rid hid)) = PlaceAPI api"
  by (simp add: New_def Let_def)

section \<open>The claims\<close>

text \<open>
  C1. The claim: the stored host secret never changes after creation and the vote
  counts change only in \<open>Vote\<close>; a successful \<open>Get\<close> leaves both as they were. The
  code at a freshly created room: before the call the room stored under \<open>room1\<close> has
  the host secret \<open>host1\<close> and a table of counts; the call succeeds, and after it the
  stored room has the empty host secret and the nil map.
\<close>

theorem Get_clears_stored_HostID_and_Votes:
  "map_option HostID (Rooms lunch ''room1'') = Some ''host1'' \<and>
   map_option Votes (Rooms lunch ''room1'') = Some (Some [''sushi'' \<mapsto> 0, ''pizza'' \<mapsto> 0]) \<and>
   isl (fst (Get lunch ''room1'')) = False \<and>
   map_option HostID (Rooms (snd (Get lunch ''room1'')) ''room1'') = Some '''' \<and>
   map_option Votes (Rooms (snd (Get lunch ''room1'')) ''room1'') = Some None"
  by (simp add: lunch_eq fresh_room_def Get_def Let_def)

text \<open>
  C6. \<open>End\<close> with a host secret that differs from the stored one returns
  \<open>ErrorUnauthorized\<close>, leaves the whole state (so the room's voters, vote counts,
  winner and host secret) as it was, and makes no place lookup.
\<close>

theorem End_wrong_hostid_Unauthorized:
  "Rooms api rid = Some room \<Longrightarrow> HostID room \<noteq> hostid \<Longrightarrow>
   End api rid hostid ord = (Returned (Some ErrorUnauthorized), api, [])"
  by (simp add: End_def Let_def)

theorem End_wrong_hostid_Unauthorized_witness:
  "Rooms lunch ''room1'' = Some (fresh_room ''room1'' ''host1'') \<and>
   HostID (fresh_room ''room1'' ''host1'') \<noteq> ''guess'' \<and>
   End lunch ''room1'' ''guess'' [''pizza'', ''sushi''] =
     (Returned (Some ErrorUnauthorized), lunch, [])"
  using End_wrong_hostid_Unauthorized
    [of lunch "''room1''" "fresh_room ''room1'' ''host1''" "''guess''" "[''pizza'', ''sushi'']"]
  by (simp add: lunch_eq fresh_room_def)

text \<open>
  C10. After a successful \<open>Get\<close> of a room, whatever calls follow (short of a \<open>New\<close>
  that binds the room's ID to another room), a \<open>Vote\<close> on the room while it is open
  returns no value, error or not: it panics on the assignment to the nil map.
\<close>

theorem Vote_after_Get_panics:
  assumes "fst (Get api rid) = Inr view"
    and "\<forall>c\<in>set cs. \<not> rebinds rid c"
    and "room_open (run (snd (Get api rid)) cs) rid"
  shows "fst (Vote (run (snd (Get api rid)) cs) rid name vote) = Panicked"
proof -
  have "cleared (run (snd (Get api rid)) cs) rid"
    using assms(1,2) by (simp add: Get_cleared run_cleared)
  with assms(3) show ?thesis
    by (auto simp: cleared_def room_open_def Vote_def Let_def split: option.splits)
qed

theorem Vote_after_Get_panics_witness:
  "fst (Get lunch ''room1'') = Inr ((fresh_room ''room1'' ''host1'')\<lparr>HostID := '''', Votes := None\<rparr>) \<and>
   room_open (run (snd (Get lunch ''room1'')) [OpVote ''room1'' ''ann'' ''pizza'', OpGet ''room9''])
     ''room1'' \<and>
   fst (Vote (run (snd (Get lunch ''room1'')) [OpVote ''room1'' ''ann'' ''pizza'', OpGet ''room9''])
          ''room1'' ''bob'' ''sushi'') = Panicked"
proof -
  have g: "fst (Get lunch ''room1'') =
      Inr ((fresh_room ''room1'' ''host1'')\<lparr>HostID := '''', Votes := None\<rparr>)"
    by (simp add: lunch_eq Get_def Let_def)
  have f: "\<forall>c\<in>set [OpVote ''room1'' ''ann'' ''pizza'', OpGet ''room9'']. \<not> rebinds ''room1'' c"
    by simp
  have o: "room_open (run (snd (Get lunch ''room1''))
      [OpVote ''room1'' ''ann'' ''pizza'', OpGet ''room9'']) ''room1''"
    by (simp add: lunch_eq fresh_room_def Vote_def Get_def room_open_def Let_def)
  from g o Vote_after_Get_panics [OF g f o] show ?thesis by simp
qed

lemma winning_category_nil: "winning_category None ord = ''''"
  by (simp add: winning_category_def)

text \<open>
  C9, as stated: after a successful \<open>Get\<close>, \<open>End\<close> with the empty host secret passes
  the authorization check and closes the room. It fails where the place lookup answers
  the empty place: \<open>End\<close> passes the check and returns \<open>nil\<close>, and the room is still
  open.
\<close>

theorem End_after_Get_not_closed_counterexample:
  "isl (fst (Get dinner ''room2'')) = False \<and>
   fst (End (snd (Get dinner ''room2'')) ''room2'' '''' []) = Returned None \<and>
   room_open (fst (snd (End (snd (Get dinner ''room2'')) ''room2'' '''' []))) ''room2''"
  by (simp add: dinner_eq fresh_room_def failingAPI_def Get_def End_def room_open_def
      winning_category_nil Let_def)

text \<open>
  C9, amended: after a successful \<open>Get\<close> of a room, whatever calls follow (short of a
  \<open>New\<close> that binds the room's ID to another room), \<open>End\<close> with the empty host secret
  passes the authorization check and returns \<open>nil\<close>; it looks up the empty category
  (nothing is tallied from the nil map) and stores the place of that lookup as the
  winner, so the room is closed exactly when that place is not empty.
\<close>

theorem End_empty_hostid_after_Get:
  assumes "fst (Get api rid) = Inr view"
    and "\<forall>c\<in>set cs. \<not> rebinds rid c"
    and "api' = run (snd (Get api rid)) cs"
  shows "fst (End api' rid '''' ord) = Returned None \<and>
         snd (snd (End api' rid '''' ord)) = [(PlaceOptions.PlaceOptions, '''')] \<and>
         map_option Winner (Rooms (fst (snd (End api' rid '''' ord))) rid) =
           Some (fst (PlaceGet (PlaceAPI api) PlaceOptions.PlaceOptions '''')) \<and>
         room_open (fst (snd (End api' rid '''' ord))) rid =
           (fst (PlaceGet (PlaceAPI api) PlaceOptions.PlaceOptions '''') = '''')"
proof -
  have "cleared api' rid"
    using assms by (simp add: Get_cleared run_cleared)
  then obtain room where room: "Rooms api' rid = Some room" "HostID room = ''''" "Votes room = None"
    by (auto simp: cleared_def split: option.splits)
  have "PlaceAPI (snd (Get api rid)) = PlaceAPI api"
    by (simp add: Get_def Let_def split: option.splits)
  then have papi: "PlaceAPI api' = PlaceAPI api"
    using assms(3) by (simp add: run_PlaceAPI)
  have po: "PlaceOptions room = PlaceOptions.PlaceOptions"
    by (rule PlaceOptions_unique)
  show ?thesis
    using End_authorized [OF room(1) room(2), of ord]
    by (simp add: room(3) papi po winning_category_nil room_open_def)
qed

theorem End_empty_hostid_after_Get_witness:
  "fst (End (run (snd (Get lunch ''room1'')) [OpVote ''room1'' ''ann'' ''pizza''])
          ''room1'' '''' [''sushi'']) = Returned None \<and>
   map_option Winner (Rooms (fst (snd (End (run (snd (Get lunch ''room1''))
          [OpVote ''room1'' ''ann'' ''pizza'']) ''room1'' '''' [''sushi'']))) ''room1'') = Some '''' \<and>
   room_open (fst (snd (End (run (snd (Get lunch ''room1'')) [OpVote ''room1'' ''ann'' ''pizza''])
          ''room1'' '''' [''sushi'']))) ''room1''"
proof -
  have g: "fst (Get lunch ''room1'') =
      Inr ((fresh_room ''room1'' ''host1'')\<lparr>HostID := '''', Votes := None\<rparr>)"
    by (simp add: lunch_eq Get_def Let_def)
  have f: "\<forall>c\<in>set [OpVote ''room1'' ''ann'' ''pizza'']. \<not> rebinds ''room1'' c"
    by simp
  have p: "fst (PlaceGet (PlaceAPI lunch) PlaceOptions.PlaceOptions '''') = ''''"
    by (simp add: lunch_eq echoAPI_def)
  show ?thesis
    using End_empty_hostid_after_Get [OF g f refl, of "[''sushi'']"] by (simp add: p)
qed

text \<open>
  C5, as stated: after a successful \<open>End\<close> every \<open>Vote\<close> on the room fails with
  \<open>ErrorRoomEnded\<close> and changes nothing. It fails where the place lookup answers the
  empty place: \<open>End\<close> returns \<open>nil\<close>, and the \<open>Vote\<close> that follows returns \<open>nil\<close> too
  and records the voter and the vote.
\<close>

theorem Vote_after_End_accepted_counterexample:
  "fst (End dinner ''room2'' ''host2'' [''sushi'', ''pizza'']) = Returned None \<and>
   fst (Vote (fst (snd (End dinner ''room2'' ''host2'' [''sushi'', ''pizza''])))
          ''room2'' ''ann'' ''pizza'') = Returned None \<and>
   map_option Voters (Rooms (snd (Vote (fst (snd (End dinner ''room2'' ''host2'' [''sushi'', ''pizza''])))
          ''room2'' ''ann'' ''pizza'')) ''room2'') = Some [''ann''] \<and>
   map_option Voters (Rooms (fst (snd (End dinner ''room2'' ''host2'' [''sushi'', ''pizza''])))
          ''room2'') = Some []"
  by (simp add: dinner_eq fresh_room_def failingAPI_def End_def Vote_def Let_def)

text \<open>
  C5, amended: every successful \<open>End\<close> of a room stores the place of its lookup as the
  winner, so after a successful \<open>End\<close> and whatever calls follow (short of a \<open>New\<close>
  that binds the room's ID to another room) the winner of the room is the place that
  the most recent successful \<open>End\<close> of the room got from its lookup. \<open>Vote\<close> on the
  room returns \<open>ErrorRoomEnded\<close> and leaves the whole state, so the vote counts and the
  voters, as it was exactly when that place is not empty; this is the case when the
  place of the first \<open>End\<close> is not empty and no later \<open>End\<close> of the room succeeds.
  When that place is empty the room is open: \<open>Vote\<close> appends the voter, and then
  returns \<open>nil\<close>, or panics when the vote counts are the nil map.
\<close>

theorem Vote_after_End_RoomEnded:
  assumes "Rooms api rid = Some room" and "HostID room = hostid"
    and "api1 = fst (snd (End api rid hostid ord))"
    and "\<forall>c\<in>set cs. \<not> rebinds rid c"
    and "api2 = run api1 cs"
  shows "fst (End api rid hostid ord) = Returned None \<and>
         (\<exists>place room2.
            last_End_place api rid (OpEnd rid hostid ord # cs) = Some place \<and>
            Rooms api2 rid = Some room2 \<and> Winner room2 = place \<and>
            (Vote api2 rid name vote = (Returned (Some ErrorRoomEnded), api2)) = (place \<noteq> '''') \<and>
            (place = '''' \<longrightarrow>
               fst (Vote api2 rid name vote) =
                 (case Votes room2 of None \<Rightarrow> Panicked | Some m \<Rightarrow> Returned None) \<and>
               map_option Voters (Rooms (snd (Vote api2 rid name vote)) rid) =
                 Some (Voters room2 @ [name])) \<and>
            (\<not> ended_in api1 rid cs \<longrightarrow>
               place = fst (PlaceGet (PlaceAPI api) (PlaceOptions room)
                              (winning_category (Votes room) ord))))"
proof -
  let ?place1 = "fst (PlaceGet (PlaceAPI api) (PlaceOptions room) (winning_category (Votes room) ord))"
  let ?calls = "OpEnd rid hostid ord # cs"
  have first: "End api rid hostid ord =
      (Returned None, api\<lparr>Rooms := (Rooms api)(rid \<mapsto> room\<lparr>Winner := ?place1\<rparr>)\<rparr>,
       [(PlaceOptions room, winning_category (Votes room) ord)])"
    using assms(1,2) by (rule End_authorized)
  then have e: "fst (End api rid hostid ord) = Returned None"
    by simp
  have s1: "snd (step api (OpEnd rid hostid ord)) = api1"
    using assms(3) by simp
  have p1: "End_place api rid (OpEnd rid hostid ord) = Some ?place1"
    using first by simp
  have last: "last_End_place api rid ?calls =
      (case last_End_place api1 rid cs of None \<Rightarrow> Some ?place1 | Some place \<Rightarrow> Some place)"
    unfolding last_End_place.simps s1 p1 ..
  then obtain place where place: "last_End_place api rid ?calls = Some place"
    by (cases "last_End_place api1 rid cs") simp_all
  have nb: "\<forall>c\<in>set ?calls. \<not> rebinds rid c"
    using assms(4) by simp
  have r2: "run api ?calls = api2"
    unfolding run.simps s1 using assms(5) by simp
  from run_last_End_place [OF assms(1) nb] obtain room2 where
    room2: "Rooms api2 rid = Some room2" and w2: "Winner room2 = place"
    unfolding r2 place by auto
  have closed: "Vote api2 rid name vote = (Returned (Some ErrorRoomEnded), api2)"
    if "place \<noteq> ''''"
    using room2 w2 that by (simp add: Vote_closed)
  have opened: "fst (Vote api2 rid name vote) =
        (case Votes room2 of None \<Rightarrow> Panicked | Some m \<Rightarrow> Returned None) \<and>
      map_option Voters (Rooms (snd (Vote api2 rid name vote)) rid) = Some (Voters room2 @ [name])"
    if "place = ''''"
    using room2 w2 that by (simp add: Vote_open)
  have "Vote api2 rid name vote \<noteq> (Returned (Some ErrorRoomEnded), api2)" if "place = ''''"
    using opened [OF that] by (cases "Votes room2") auto
  with closed have iff: "(Vote api2 rid name vote = (Returned (Some ErrorRoomEnded), api2)) =
      (place \<noteq> '''')"
    by blast
  have only: "place = ?place1" if "\<not> ended_in api1 rid cs"
    using last place last_End_place_None [OF that] by simp
  from e place room2 w2 iff opened only show ?thesis
    by blast
qed

theorem Vote_after_End_RoomEnded_witness:
  "fst (End (snd (Vote lunch ''room1'' ''ann'' ''pizza'')) ''room1'' ''host1''
          [''sushi'', ''pizza'']) = Returned None \<and>
   Vote (run (fst (snd (End (snd (Vote lunch ''room1'' ''ann'' ''pizza'')) ''room1'' ''host1''
                [''sushi'', ''pizza''])))
           [OpGet ''room1'', OpEnd ''room1'' ''host1'' [''pizza'', ''sushi'']])
     ''room1'' ''bob'' ''sushi'' =
   (Returned (Some ErrorRoomEnded),
    run (fst (snd (End (snd (Vote lunch ''room1'' ''ann'' ''pizza'')) ''room1'' ''host1''
                [''sushi'', ''pizza''])))
      [OpGet ''room1'', OpEnd ''room1'' ''host1'' [''pizza'', ''sushi'']]) \<and>
   fst (Vote (run (fst (snd (End (snd (Vote lunch ''room1'' ''ann'' ''pizza'')) ''room1'' ''host1''
                [''sushi'', ''pizza''])))
           [OpGet ''room1'', OpEnd ''room1'' '''' []])
     ''room1'' ''bob'' ''sushi'') = Panicked"
proof -
  let ?api = "snd (Vote lunch ''room1'' ''ann'' ''pizza'')"
  let ?room = "(fresh_room ''room1'' ''host1'')
      \<lparr>Voters := [''ann''], Votes := Some [''sushi'' \<mapsto> 0, ''pizza'' \<mapsto> 1]\<rparr>"
  let ?ord = "[''sushi'', ''pizza'']"
  let ?api1 = "fst (snd (End ?api ''room1'' ''host1'' ?ord))"
  let ?cs = "[OpGet ''room1'', OpEnd ''room1'' ''host1'' [''pizza'', ''sushi'']]"
  let ?ds = "[OpGet ''room1'', OpEnd ''room1'' '''' []]"
  have api: "?api = \<lparr>Rooms = [''room1'' \<mapsto> ?room], PlaceAPI = echoAPI\<rparr>"
    by (simp add: lunch_eq fresh_room_def Vote_def Let_def)
  have a1: "Rooms ?api ''room1'' = Some ?room"
    by (simp add: api)
  have a2: "HostID ?room = ''host1''"
    by (simp add: fresh_room_def)
  have a4: "\<forall>c\<in>set ?cs. \<not> rebinds ''room1'' c"
    by simp
  have b4: "\<forall>c\<in>set ?ds. \<not> rebinds ''room1'' c"
    by simp
  have lc: "last_End_place ?api ''room1'' (OpEnd ''room1'' ''host1'' ?ord # ?cs) = Some ''pizza''"
    by (simp add: api fresh_room_def echoAPI_def End_def Get_def winning_category_def Let_def)
  have ld: "last_End_place ?api ''room1'' (OpEnd ''room1'' ''host1'' ?ord # ?ds) = Some ''''"
    by (simp add: api fresh_room_def echoAPI_def End_def Get_def winning_category_def Let_def)
  have vd: "map_option Votes (Rooms (run ?api1 ?ds) ''room1'') = Some None"
    by (simp add: api fresh_room_def echoAPI_def End_def Get_def winning_category_def Let_def)
  note C = Vote_after_End_RoomEnded [OF a1 a2 refl a4 refl, where name = "''bob''" and vote = "''sushi''"]
  note D = Vote_after_End_RoomEnded [OF a1 a2 refl b4 refl, where name = "''bob''" and vote = "''sushi''"]
  from C have c1: "fst (End ?api ''room1'' ''host1'' ?ord) = Returned None"
    by (rule conjunct1)
  from C obtain place where
    pc: "last_End_place ?api ''room1'' (OpEnd ''room1'' ''host1'' ?ord # ?cs) = Some place"
      "(Vote (run ?api1 ?cs) ''room1'' ''bob'' ''sushi'' =
          (Returned (Some ErrorRoomEnded), run ?api1 ?cs)) = (place \<noteq> '''')"
    by blast
  from pc(1) [unfolded lc] have "place = ''pizza''"
    by simp
  with pc(2) have c2: "Vote (run ?api1 ?cs) ''room1'' ''bob'' ''sushi'' =
      (Returned (Some ErrorRoomEnded), run ?api1 ?cs)"
    by (simp del: run.simps)
  from D obtain place' room2 where
    pd: "last_End_place ?api ''room1'' (OpEnd ''room1'' ''host1'' ?ord # ?ds) = Some place'"
      "Rooms (run ?api1 ?ds) ''room1'' = Some room2"
      "place' = '''' \<longrightarrow>
         fst (Vote (run ?api1 ?ds) ''room1'' ''bob'' ''sushi'') =
           (case Votes room2 of None \<Rightarrow> Panicked | Some m \<Rightarrow> Returned None)"
    by blast
  from pd(1) [unfolded ld] have "place' = ''''"
    by simp
  with pd(3) have v: "fst (Vote (run ?api1 ?ds) ''room1'' ''bob'' ''sushi'') =
      (case Votes room2 of None \<Rightarrow> Panicked | Some m \<Rightarrow> Returned None)"
    by blast
  from vd [unfolded pd(2)] have "Votes room2 = None"
    by simp
  with v have c3: "fst (Vote (run ?api1 ?ds) ''room1'' ''bob'' ''sushi'') = Panicked"
    by (simp del: run.simps)
  from c1 c2 c3 show ?thesis
    by (intro conjI)
qed

text \<open>
  C8, as stated: when the place lookup fails during \<open>End\<close>, \<open>End\<close> fails with an
  error and the room stays open with no winner recorded. The code at a lookup that
  fails and still hands back a place: \<open>End\<close> returns \<open>nil\<close> and the place is recorded
  as the winner.
\<close>

theorem End_lookup_error_dropped_counterexample:
  "snd (PlaceGet (PlaceAPI supper) PlaceOptions.PlaceOptions
          (winning_category (Some [''sushi'' \<mapsto> 0, ''pizza'' \<mapsto> 0]) [''sushi'', ''pizza''])) =
     Some (ErrorOther ''timeout'') \<and>
   fst (End supper ''room3'' ''host3'' [''sushi'', ''pizza'']) = Returned None \<and>
   map_option Winner (Rooms (fst (snd (End supper ''room3'' ''host3'' [''sushi'', ''pizza''])))
      ''room3'') = Some ''diner''"
  by (simp add: supper_eq fresh_room_def staleAPI_def End_def Let_def)

text \<open>
  C8, amended: when the place lookup fails during an authorized \<open>End\<close>, \<open>End\<close> still
  returns \<open>nil\<close>: the error of the lookup is dropped and the place that came with it
  is stored as the winner, so the room stays open exactly when that place is empty.
\<close>

theorem End_lookup_error_dropped:
  assumes "Rooms api rid = Some room" and "HostID room = hostid"
    and "PlaceGet (PlaceAPI api) (PlaceOptions room) (winning_category (Votes room) ord) =
           (place, Some e)"
  shows "fst (End api rid hostid ord) = Returned None \<and>
         Rooms (fst (snd (End api rid hostid ord))) rid = Some (room\<lparr>Winner := place\<rparr>) \<and>
         room_open (fst (snd (End api rid hostid ord))) rid = (place = '''')"
  using End_authorized [OF assms(1,2), of ord] assms(3) by (simp add: room_open_def)

theorem End_lookup_error_dropped_witness:
  "PlaceGet (PlaceAPI dinner) (PlaceOptions (fresh_room ''room2'' ''host2''))
     (winning_category (Votes (fresh_room ''room2'' ''host2'')) [''pizza'', ''sushi'']) =
     ('''', Some (ErrorOther ''timeout'')) \<and>
   fst (End dinner ''room2'' ''host2'' [''pizza'', ''sushi'']) = Returned None \<and>
   Rooms (fst (snd (End dinner ''room2'' ''host2'' [''pizza'', ''sushi'']))) ''room2'' =
     Some ((fresh_room ''room2'' ''host2'')\<lparr>Winner := ''''\<rparr>) \<and>
   room_open (fst (snd (End dinner ''room2'' ''host2'' [''pizza'', ''sushi'']))) ''room2''"
proof -
  have a1: "Rooms dinner ''room2'' = Some (fresh_room ''room2'' ''host2'')"
    by (simp add: dinner_eq)
  have a2: "HostID (fresh_room ''room2'' ''host2'') = ''host2''"
    by (simp add: fresh_room_def)
  have a3: "PlaceGet (PlaceAPI dinner) (PlaceOptions (fresh_room ''room2'' ''host2''))
     (winning_category (Votes (fresh_room ''room2'' ''host2'')) [''pizza'', ''sushi'']) =
     ('''', Some (ErrorOther ''timeout''))"
    by (simp add: dinner_eq failingAPI_def)
  from a3 End_lookup_error_dropped [OF a1 a2 a3] show ?thesis by simp
qed

lemma tied_eq:
  "tied = \<lparr>Rooms = [''room1'' \<mapsto> (fresh_room ''room1'' ''host1'')
       \<lparr>Voters := [''ann'', ''bob''], Votes := Some [''sushi'' \<mapsto> 1, ''pizza'' \<mapsto> 1]\<rparr>],
     PlaceAPI = echoAPI\<rparr>"
  by (simp add: tied_def lunch_eq fresh_room_def Vote_def Let_def)




text \<open>
  C7, as stated: the winner is set at most once and never changes once it is set. The
  code at the room with one vote for each of two choices: the first \<open>End\<close> records
  sushi, a second \<open>End\<close> that visits the keys in the other order records pizza in its
  place.
\<close>

theorem Winner_replaced_counterexample:
  "map_option Winner (Rooms (run tied [OpEnd ''room1'' ''host1'' [''sushi'', ''pizza'']])
      ''room1'') = Some ''sushi'' \<and>
   map_option Winner (Rooms (run tied [OpEnd ''room1'' ''host1'' [''sushi'', ''pizza''],
      OpVote ''room1'' ''cy'' ''pizza'', OpEnd ''room1'' ''host1'' [''pizza'', ''sushi'']])
      ''room1'') = Some ''pizza''"
  by (simp add: tied_eq fresh_room_def echoAPI_def End_def Vote_def winning_category_def Let_def)

text \<open>
  C7, amended: the winner is absent (the empty string) when the room is created and
  stays absent through every sequence of calls in which no \<open>End\<close> of the room succeeds
  (no \<open>New\<close> binding the room's ID to another room). Every successful \<open>End\<close> of the
  room, the first or a later one, assigns the winner the place that its lookup returns
  for the category it selects; so after every such sequence of calls the winner is the
  place of the most recent successful \<open>End\<close> of the room, and absent when there is none.
\<close>

theorem Winner_absent_until_End:
  assumes "api0 = snd (New api address rid hid)"
    and "\<forall>c\<in>set cs. \<not> rebinds rid c"
  shows "room_open api0 rid \<and>
         (\<not> ended_in api0 rid cs \<longrightarrow> room_open (run api0 cs) rid) \<and>
         (\<forall>room hostid ord.
            Rooms (run api0 cs) rid = Some room \<and>
            fst (End (run api0 cs) rid hostid ord) = Returned None \<longrightarrow>
            map_option Winner (Rooms (fst (snd (End (run api0 cs) rid hostid ord))) rid) =
              Some (fst (PlaceGet (PlaceAPI api) (PlaceOptions room)
                      (winning_category (Votes room) ord)))) \<and>
         map_option Winner (Rooms (run api0 cs) rid) =
           Some (case last_End_place api0 rid cs of None \<Rightarrow> '''' | Some place \<Rightarrow> place)"
proof -
  obtain room0 where r0: "Rooms api0 rid = Some room0" and w0: "Winner room0 = ''''"
    using assms(1) by (simp add: New_room)
  have "room_open api0 rid"
    using r0 w0 by (simp add: room_open_def)
  moreover have "room_open (run api0 cs) rid" if "\<not> ended_in api0 rid cs"
    using run_Winner [OF r0 assms(2) that] w0 by (auto simp: room_open_def)
  moreover have "map_option Winner (Rooms (fst (snd (End (run api0 cs) rid hostid ord))) rid) =
      Some (fst (PlaceGet (PlaceAPI api) (PlaceOptions room) (winning_category (Votes room) ord)))"
    if "Rooms (run api0 cs) rid = Some room"
      and "fst (End (run api0 cs) rid hostid ord) = Returned None" for room hostid ord
  proof -
    have "HostID room = hostid"
      using that by (simp add: End_Returned_None)
    moreover have "PlaceAPI (run api0 cs) = PlaceAPI api"
      using assms(1) by (simp add: run_PlaceAPI New_PlaceAPI)
    ultimately show ?thesis
      using End_authorized [OF that(1), of hostid ord] by simp
  qed
  moreover have "map_option Winner (Rooms (run api0 cs) rid) =
      Some (case last_End_place api0 rid cs of None \<Rightarrow> '''' | Some place \<Rightarrow> place)"
    using run_last_End_place [OF r0 assms(2)] w0 by (auto split: option.splits)
  ultimately show ?thesis by blast
qed

theorem Winner_absent_until_End_witness:
  "room_open lunch ''room1'' \<and>
   room_open (run lunch [OpVote ''room1'' ''ann'' ''pizza'', OpEnd ''room1'' ''guess'' [],
      OpGet ''room1'']) ''room1'' \<and>
   map_option Winner (Rooms (fst (snd (End (run lunch [OpVote ''room1'' ''ann'' ''pizza'',
      OpEnd ''room1'' ''guess'' [], OpGet ''room1'']) ''room1'' '''' []))) ''room1'') = Some ''''"
proof -
  let ?cs = "[OpVote ''room1'' ''ann'' ''pizza'', OpEnd ''room1'' ''guess'' [], OpGet ''room1'']"
  let ?room = "(fresh_room ''room1'' ''host1'')
      \<lparr>HostID := '''', Voters := [''ann''], Votes := None\<rparr>"
  have a2: "\<forall>c\<in>set ?cs. \<not> rebinds ''room1'' c"
    by simp
  have ne: "\<not> ended_in lunch ''room1'' ?cs"
    by (simp add: lunch_eq fresh_room_def End_def Vote_def Let_def)
  have r: "Rooms (run lunch ?cs) ''room1'' = Some ?room"
    by (simp add: lunch_eq fresh_room_def End_def Vote_def Get_def Let_def)
  have e: "fst (End (run lunch ?cs) ''room1'' '''' []) = Returned None"
    by (simp add: End_Returned_None r fresh_room_def del: run.simps)
  have p: "fst (PlaceGet (PlaceAPI (NewAPI echoAPI)) (PlaceOptions ?room)
      (winning_category (Votes ?room) [])) = ''''"
    by (simp add: NewAPI_def echoAPI_def winning_category_def)
  note W = Winner_absent_until_End [OF lunch_def a2]
  from W have c1: "room_open lunch ''room1''"
    by (rule conjunct1)
  from W ne have c2: "room_open (run lunch ?cs) ''room1''"
    by blast
  from W r e have "map_option Winner
      (Rooms (fst (snd (End (run lunch ?cs) ''room1'' '''' []))) ''room1'') =
      Some (fst (PlaceGet (PlaceAPI (NewAPI echoAPI)) (PlaceOptions ?room)
        (winning_category (Votes ?room) [])))"
    by blast
  then have c3: "map_option Winner
      (Rooms (fst (snd (End (run lunch ?cs) ''room1'' '''' []))) ''room1'') = Some ''''"
    by (simp only: p)
  from c1 c2 c3 show ?thesis
    by (intro conjI)
qed

subsection \<open>The keys of the vote counts\<close>










subsection \<open>The winning category\<close>

lemma tally_no_greater:
  "\<forall>(k, v)\<in>set kvs. sint v \<le> sint mx \<Longrightarrow> tally kvs mx winner = (mx, winner)"
  by (induction kvs) auto

lemma tally_first_greatest:
  "\<exists>(k, v)\<in>set kvs. sint mx < sint v \<Longrightarrow>
   \<exists>ys k v zs. kvs = ys @ (k, v) # zs \<and> tally kvs mx winner = (v, k) \<and> sint mx < sint v \<and>
     (\<forall>(k', v')\<in>set ys. sint v' < sint v) \<and> (\<forall>(k', v')\<in>set zs. sint v' \<le> sint v)"
proof (induction kvs arbitrary: mx winner)
  case Nil
  then show ?case by simp
next
  case (Cons kv kvs)
  obtain k0 v0 where kv: "kv = (k0, v0)"
    by (cases kv)
  show ?case
  proof (cases "sint mx < sint v0")
    case True
    show ?thesis
    proof (cases "\<exists>(k, v)\<in>set kvs. sint v0 < sint v")
      case True
      from Cons.IH [OF True, of k0] obtain ys k v zs where
        d: "kvs = ys @ (k, v) # zs" "tally kvs v0 k0 = (v, k)" "sint v0 < sint v"
          "\<forall>(k', v')\<in>set ys. sint v' < sint v" "\<forall>(k', v')\<in>set zs. sint v' \<le> sint v"
        by blast
      have "kv # kvs = (kv # ys) @ (k, v) # zs"
        using d(1) by simp
      moreover have "tally (kv # kvs) mx winner = (v, k)"
        using \<open>sint mx < sint v0\<close> d(2) by (simp add: kv)
      moreover have "sint mx < sint v"
        using \<open>sint mx < sint v0\<close> d(3) by simp
      moreover have "\<forall>(k', v')\<in>set (kv # ys). sint v' < sint v"
        using d(3,4) by (simp add: kv)
      ultimately show ?thesis
        using d(5) by blast
    next
      case False
      then have le: "\<forall>(k, v)\<in>set kvs. sint v \<le> sint v0"
        by (auto simp: not_less)
      have "kv # kvs = [] @ (k0, v0) # kvs"
        by (simp add: kv)
      moreover have "tally (kv # kvs) mx winner = (v0, k0)"
        using \<open>sint mx < sint v0\<close> tally_no_greater [OF le] by (simp add: kv)
      ultimately show ?thesis
        using \<open>sint mx < sint v0\<close> le by (metis empty_iff empty_set)
    qed
  next
    case False
    with Cons.prems have ex: "\<exists>(k, v)\<in>set kvs. sint mx < sint v"
      by (auto simp: kv)
    from Cons.IH [OF ex, of winner] obtain ys k v zs where
      d: "kvs = ys @ (k, v) # zs" "tally kvs mx winner = (v, k)" "sint mx < sint v"
        "\<forall>(k', v')\<in>set ys. sint v' < sint v" "\<forall>(k', v')\<in>set zs. sint v' \<le> sint v"
      by blast
    have "kv # kvs = (kv # ys) @ (k, v) # zs"
      using d(1) by simp
    moreover have "tally (kv # kvs) mx winner = (v, k)"
      using False d(2) by (simp add: kv)
    moreover have "\<forall>(k', v')\<in>set (kv # ys). sint v' < sint v"
      using False d(3,4) by (simp add: kv)
    ultimately show ?thesis
      using d(3,5) by blast
  qed
qed

lemma range_Votes_keys:
  "set ord \<subseteq> dom m \<Longrightarrow> range_Votes (Some m) ord = map (\<lambda>k. (k, the (m k))) ord"
  by (induction ord) auto

lemma set_range_Votes:
  "set ord = dom m \<Longrightarrow> (k, v) \<in> set (range_Votes (Some m) ord) \<longleftrightarrow> m k = Some v"
  by (auto simp: range_Votes_keys)

lemma winning_category_none_positive:
  assumes "\<forall>k v. m k = Some v \<longrightarrow> sint v \<le> 0"
  shows "winning_category (Some m) ord = ''''"
proof -
  have "\<forall>(k, v)\<in>set (range_Votes (Some m) ord). sint v \<le> sint (0 :: int32)"
    using assms by (auto split: option.splits)
  then show ?thesis
    by (simp add: winning_category_def tally_no_greater del: range_Votes.simps)
qed

lemma winning_category_some_positive:
  assumes ord: "distinct ord" "set ord = dom m"
    and pos: "m k0 = Some v0" "0 < sint v0"
  shows "\<exists>v. m (winning_category (Some m) ord) = Some v \<and> 0 < sint v \<and>
           (\<forall>k' v'. m k' = Some v' \<longrightarrow> sint v' \<le> sint v) \<and>
           (\<forall>k'\<in>set (takeWhile (\<lambda>k. k \<noteq> winning_category (Some m) ord) ord).
              \<forall>v'. m k' = Some v' \<longrightarrow> sint v' < sint v)"
proof -
  let ?f = "\<lambda>k. (k, the (m k))"
  let ?kvs = "range_Votes (Some m) ord"
  have kvs: "?kvs = map ?f ord"
    using ord(2) by (simp add: range_Votes_keys del: range_Votes.simps)
  have mem: "(k, v) \<in> set ?kvs \<longleftrightarrow> m k = Some v" for k v
    using ord(2) by (rule set_range_Votes)
  have "(k0, v0) \<in> set ?kvs"
    using pos(1) by (simp only: mem)
  with pos(2) have "\<exists>(k, v)\<in>set ?kvs. sint (0 :: int32) < sint v"
    by (auto simp del: range_Votes.simps)
  from tally_first_greatest [OF this, of "''''"] obtain ys k v zs where
    d: "?kvs = ys @ (k, v) # zs" "tally ?kvs 0 '''' = (v, k)" "sint (0 :: int32) < sint v"
      "\<forall>(k', v')\<in>set ys. sint v' < sint v" "\<forall>(k', v')\<in>set zs. sint v' \<le> sint v"
    by blast
  have w: "winning_category (Some m) ord = k"
    using d(2) by (simp add: winning_category_def del: range_Votes.simps)
  have "(k, v) \<in> set ?kvs"
    by (subst d(1)) simp
  then have mk: "m k = Some v"
    by (simp only: mem)
  have greatest: "sint v' \<le> sint v" if "m k' = Some v'" for k' v'
  proof -
    have "(k', v') \<in> set (range_Votes (Some m) ord)"
      using that by (simp only: mem)
    then have "(k', v') \<in> set (ys @ (k, v) # zs)"
      by (simp only: d(1))
    then show ?thesis
      using d(4,5) by auto
  qed
  from d(1) kvs have "map ?f ord = ys @ (k, v) # zs"
    by simp
  then obtain us vs where uv: "ord = us @ vs" "ys = map ?f us" "(k, v) # zs = map ?f vs"
    by (auto simp: map_eq_append_conv)
  from uv(3) obtain ws where ws: "vs = k # ws"
    by (cases vs) auto
  have "k \<notin> set us"
    using ord(1) uv(1) ws by auto
  then have tw: "takeWhile (\<lambda>k'. k' \<noteq> k) ord = us"
    unfolding uv(1) ws by (subst takeWhile_append2) auto
  have before: "sint v' < sint v" if "k' \<in> set us" "m k' = Some v'" for k' v'
  proof -
    have "(k', v') \<in> set ys"
      using that by (force simp: uv(2))
    then show ?thesis
      using d(4) by auto
  qed
  show ?thesis
    unfolding w tw using mk d(3) greatest before by auto
qed

text \<open>
  C3, as stated: ties go to the choice declared first, and with every count zero the
  first declared choice is selected. In the code, a fresh room with the choices sushi and
  pizza, in this order, and every count zero: \<open>End\<close> looks the empty category up, not
  sushi. With one vote each and an iteration that visits pizza first: \<open>End\<close> looks
  pizza up, not sushi.
\<close>

theorem winning_category_counterexample:
  "map_option Choices (Rooms lunch ''room1'') = Some [''sushi'', ''pizza''] \<and>
   iteration_order (Some [''sushi'' \<mapsto> 0, ''pizza'' \<mapsto> 0]) [''sushi'', ''pizza''] \<and>
   winning_category (Some [''sushi'' \<mapsto> 0, ''pizza'' \<mapsto> 0]) [''sushi'', ''pizza''] = '''' \<and>
   snd (snd (End lunch ''room1'' ''host1'' [''sushi'', ''pizza''])) =
     [(PlaceOptions.PlaceOptions, '''')] \<and>
   map_option Choices (Rooms tied ''room1'') = Some [''sushi'', ''pizza''] \<and>
   iteration_order (Some [''sushi'' \<mapsto> 1, ''pizza'' \<mapsto> 1]) [''pizza'', ''sushi''] \<and>
   winning_category (Some [''sushi'' \<mapsto> 1, ''pizza'' \<mapsto> 1]) [''pizza'', ''sushi''] = ''pizza'' \<and>
   snd (snd (End tied ''room1'' ''host1'' [''pizza'', ''sushi''])) =
     [(PlaceOptions.PlaceOptions, ''pizza'')]"
  by (simp add: lunch_eq tied_eq fresh_room_def End_def winning_category_def
      iteration_order_def Let_def) auto

text \<open>
  C3, amended: the selection follows the order in which the map is visited, not the
  declaration order of the choices. For every iteration order of the counts: when no
  count is positive (so when every count is zero) the empty category is selected, not a
  choice; when some count is positive, the selected category is a key with the greatest
  count, that count is positive, and every key visited before it has a strictly smaller
  count (among keys tied for the greatest count the first one visited is selected); so a
  key whose positive count is strictly greater than every other count is selected
  whatever the order.
\<close>

theorem winning_category_first_greatest:
  assumes "iteration_order (Some m) ord"
  shows "((\<forall>k v. m k = Some v \<longrightarrow> sint v \<le> 0) \<longrightarrow> winning_category (Some m) ord = '''') \<and>
         ((\<exists>k v. m k = Some v \<and> 0 < sint v) \<longrightarrow>
            (\<exists>v. m (winning_category (Some m) ord) = Some v \<and> 0 < sint v \<and>
               (\<forall>k' v'. m k' = Some v' \<longrightarrow> sint v' \<le> sint v) \<and>
               (\<forall>k'\<in>set (takeWhile (\<lambda>k. k \<noteq> winning_category (Some m) ord) ord).
                  \<forall>v'. m k' = Some v' \<longrightarrow> sint v' < sint v))) \<and>
         (\<forall>k v. m k = Some v \<and> 0 < sint v \<and>
            (\<forall>k' v'. k' \<noteq> k \<and> m k' = Some v' \<longrightarrow> sint v' < sint v) \<longrightarrow>
            winning_category (Some m) ord = k)"
proof -
  from assms have ord: "distinct ord" "set ord = dom m"
    by (simp_all add: iteration_order_def)
  have none: "winning_category (Some m) ord = ''''" if "\<forall>k v. m k = Some v \<longrightarrow> sint v \<le> 0"
    using that by (rule winning_category_none_positive)
  have some: "\<exists>v. m (winning_category (Some m) ord) = Some v \<and> 0 < sint v \<and>
      (\<forall>k' v'. m k' = Some v' \<longrightarrow> sint v' \<le> sint v) \<and>
      (\<forall>k'\<in>set (takeWhile (\<lambda>k. k \<noteq> winning_category (Some m) ord) ord).
         \<forall>v'. m k' = Some v' \<longrightarrow> sint v' < sint v)"
    if "m k = Some v" "0 < sint v" for k v
    using ord that by (rule winning_category_some_positive)
  have strict: "winning_category (Some m) ord = k"
    if k: "m k = Some v" "0 < sint v"
      and gt: "\<forall>k' v'. k' \<noteq> k \<and> m k' = Some v' \<longrightarrow> sint v' < sint v" for k v
  proof (rule ccontr)
    assume ne: "winning_category (Some m) ord \<noteq> k"
    from some [OF k] obtain w where
      w: "m (winning_category (Some m) ord) = Some w" "\<forall>k' v'. m k' = Some v' \<longrightarrow> sint v' \<le> sint w"
      by blast
    from gt ne w(1) have "sint w < sint v"
      by blast
    moreover from w(2) k(1) have "sint v \<le> sint w"
      by blast
    ultimately show False
      by simp
  qed
  from none some strict show ?thesis
    by blast
qed

theorem winning_category_first_greatest_witness:
  "iteration_order (Some [''sushi'' \<mapsto> 1, ''pizza'' \<mapsto> 2]) [''sushi'', ''pizza''] \<and>
   winning_category (Some [''sushi'' \<mapsto> 1, ''pizza'' \<mapsto> 2]) [''sushi'', ''pizza''] = ''pizza'' \<and>
   iteration_order (Some [''sushi'' \<mapsto> 1, ''pizza'' \<mapsto> 2]) [''pizza'', ''sushi''] \<and>
   winning_category (Some [''sushi'' \<mapsto> 1, ''pizza'' \<mapsto> 2]) [''pizza'', ''sushi''] = ''pizza''"
proof -
  let ?m = "[''sushi'' \<mapsto> 1 :: int32, ''pizza'' \<mapsto> 2]"
  have o1: "iteration_order (Some ?m) [''sushi'', ''pizza'']"
    by (auto simp: iteration_order_def)
  have o2: "iteration_order (Some ?m) [''pizza'', ''sushi'']"
    by (auto simp: iteration_order_def)
  have k: "?m ''pizza'' = Some 2 \<and> 0 < sint (2 :: int32) \<and>
      (\<forall>k' v'. k' \<noteq> ''pizza'' \<and> ?m k' = Some v' \<longrightarrow> sint v' < sint (2 :: int32))"
    by (auto split: if_splits)
  have w1: "winning_category (Some ?m) [''sushi'', ''pizza''] = ''pizza''"
    using winning_category_first_greatest
      [OF o1, THEN conjunct2, THEN conjunct2, THEN spec, THEN spec, THEN mp, OF k] .
  have w2: "winning_category (Some ?m) [''pizza'', ''sushi''] = ''pizza''"
    using winning_category_first_greatest
      [OF o2, THEN conjunct2, THEN conjunct2, THEN spec, THEN spec, THEN mp, OF k] .
  from o1 w1 o2 w2 show ?thesis
    by (intro conjI)
qed

end
